theory Spec2Isabelle
  imports Complex_Main "HOL-Library.Monad_Syntax" "HOL-Library.Log_Nat"
begin

section \<open>Python's exceptions\<close>

text \<open>
  The exceptions the two scripts can meet. \<^verbatim>\<open>ValueError\<close> is raised by the calculator's own
  zero checks; \<^verbatim>\<open>ZeroDivisionError\<close> and \<^verbatim>\<open>OverflowError\<close> by Python's operators;
  \<^verbatim>\<open>RecursionError\<close> by the interpreter when calls nest deeper than its recursion limit;
  \<^verbatim>\<open>NameError\<close> when a name is bound nowhere. An exception leaves the rest of an
  expression unevaluated.
\<close>

datatype error = ValueError | ZeroDivisionError | OverflowError | RecursionError | NameError

definition and_then :: "error + 'a \<Rightarrow> ('a \<Rightarrow> error + 'b) \<Rightarrow> error + 'b" where
  "and_then r f = (case r of Inl e \<Rightarrow> Inl e | Inr v \<Rightarrow> f v)"

section \<open>The Fibonacci calculator\<close>

text \<open>
  \<^verbatim>\<open>fibonacci(n)\<close> of \<^verbatim>\<open>ai_generated_fibonacci.py\<close>, on Python's unbounded integers:
  \<^verbatim>\<open>
  def fibonacci(n):
      if n <= 0:
          return 0
      elif n == 1:
          return 1
      else:
          return fibonacci(n-1) + fibonacci(n-2)
  \<close>
  The function calls itself twice, first on \<open>n - 1\<close> and then on \<open>n - 2\<close>. It is given
  twice. \<open>fibonacci\<close> is the function as its text reads, on a stack without bound; nothing
  in that text bounds the recursion, so the result is an \<open>option\<close>, \<open>None\<close> being a call that
  never returns. \<open>fibonacci_within frames\<close> is the same text run by an interpreter that
  allows \<open>frames\<close> more nested calls before it raises \<^verbatim>\<open>RecursionError\<close>; the script does not
  set the limit, so the number is a parameter (CPython's default limit is 1000 frames, those
  of the callers included).
\<close>

partial_function (option) fibonacci :: "int \<Rightarrow> int option" where
  "fibonacci n =
     (if n \<le> 0 then Some 0
      else if n = 1 then Some 1
      else do {
        x \<leftarrow> fibonacci (n - 1);
        y \<leftarrow> fibonacci (n - 2);
        Some (x + y)
      })"

fun fibonacci_within :: "nat \<Rightarrow> int \<Rightarrow> error + int" where
  "fibonacci_within 0 n = Inl RecursionError"
| "fibonacci_within (Suc frames) n =
     (if n \<le> 0 then Inr 0
      else if n = 1 then Inr 1
      else and_then (fibonacci_within frames (n - 1)) (\<lambda>x.
           and_then (fibonacci_within frames (n - 2)) (\<lambda>y.
           Inr (x + y))))"

text \<open>
  The sequence of the specification, written from its words: \<open>F(0) = 0\<close>, \<open>F(1) = 1\<close>,
  \<open>F(n) = F(n - 1) + F(n - 2)\<close>, and its first ten elements as the specification lists them.
\<close>

fun canonical_F :: "nat \<Rightarrow> int" where
  "canonical_F 0 = 0"
| "canonical_F (Suc 0) = 1"
| "canonical_F (Suc (Suc n)) = canonical_F (Suc n) + canonical_F n"

definition canonical_sequence :: "int list" where
  "canonical_sequence = [0, 1, 1, 2, 3, 5, 8, 13, 21, 34]"

section \<open>The calculator\<close>

subsection \<open>Python's numbers\<close>

text \<open>
  The six operations of \<^verbatim>\<open>demo_calculator.py\<close> are untyped: they apply Python's
  operators to whatever they are given. The values here are the numbers the operators
  treat exactly, \<^verbatim>\<open>int\<close> (unbounded) and \<^verbatim>\<open>fractions.Fraction\<close>, and \<^verbatim>\<open>float\<close>, which
  \<^verbatim>\<open>/\<close> produces from two \<^verbatim>\<open>int\<close>s. A finite float is given by the rational number it
  denotes; the two zeros of a float are one value, as \<^verbatim>\<open>==\<close> has them.
\<close>

datatype pyfloat = Finite rat | PlusInf | MinusInf | NaN

datatype pynum = PyInt int | PyFrac rat | PyFloat pyfloat

subsection \<open>Rounding to a float\<close>

text \<open>
  A float is an IEEE 754 binary64 number: \<open>m * 2 ^ e\<close> with \<open>\<bar>m\<bar> < 2 ^ 53\<close> and
  \<open>- 1074 \<le> e \<le> 971\<close>. \<open>ilog2 q\<close> is the exponent of the power_op of two at or below \<open>\<bar>q\<bar>\<close>,
  \<open>quantum q\<close> the exponent of the last binary place kept for \<open>q\<close>, and \<open>round_double q\<close>
  the float nearest to \<open>q\<close>, ties going to the even neighbour; a result that needs an
  exponent above 971 is an infinity.
\<close>

definition ilog2 :: "rat \<Rightarrow> int" where
  "ilog2 q = (case quotient_of \<bar>q\<bar> of (n, d) \<Rightarrow>
     let k = bitlen n - bitlen d in if 2 powi k \<le> \<bar>q\<bar> then k else k - 1)"

definition round_half_even :: "rat \<Rightarrow> int" where
  "round_half_even x =
     (let f = \<lfloor>x\<rfloor>; r = x - of_int f
      in if r < 1 / 2 then f else if 1 / 2 < r then f + 1
         else if even f then f else f + 1)"

definition quantum :: "rat \<Rightarrow> int" where
  "quantum q = max (ilog2 q) (- 1022) - 52"

definition round_double :: "rat \<Rightarrow> pyfloat" where
  "round_double q =
     (if q = 0 then Finite 0
      else let e = quantum q; m = round_half_even (q / 2 powi e)
           in if 971 < (if \<bar>m\<bar> < 2 ^ 53 then e else e + 1)
              then (if 0 < q then PlusInf else MinusInf)
              else Finite (of_int m * 2 powi e))"

text \<open>
  Converting an \<^verbatim>\<open>int\<close> or a \<^verbatim>\<open>Fraction\<close> to a float, and dividing two \<^verbatim>\<open>int\<close>s, round in
  this way and raise \<^verbatim>\<open>OverflowError\<close> where the result would be an infinity.
\<close>

definition checked_double :: "rat \<Rightarrow> error + rat" where
  "checked_double q = (case round_double q of Finite v \<Rightarrow> Inr v | _ \<Rightarrow> Inl OverflowError)"

fun exact :: "pynum \<Rightarrow> rat option" where
  "exact (PyInt i) = Some (of_int i)"
| "exact (PyFrac q) = Some q"
| "exact (PyFloat x) = None"

fun to_float :: "pynum \<Rightarrow> error + pyfloat" where
  "to_float (PyFloat x) = Inr x"
| "to_float (PyInt i) = and_then (checked_double (of_int i)) (\<lambda>v. Inr (Finite v))"
| "to_float (PyFrac q) = and_then (checked_double q) (\<lambda>v. Inr (Finite v))"

subsection \<open>Float arithmetic\<close>

text \<open>
  \<^verbatim>\<open>+\<close>, \<^verbatim>\<open>-\<close>, \<^verbatim>\<open>*\<close> and \<^verbatim>\<open>/\<close> on two floats are the IEEE operations: the exact result,
  rounded; out of range it is an infinity and nothing is raised. Only a zero divisor
  raises, and \<open>float_truediv\<close> is used behind that check.
\<close>

fun negative :: "pyfloat \<Rightarrow> bool" where
  "negative (Finite v) = (v < 0)"
| "negative MinusInf = True"
| "negative PlusInf = False"
| "negative NaN = False"

fun float_neg :: "pyfloat \<Rightarrow> pyfloat" where
  "float_neg (Finite v) = Finite (- v)"
| "float_neg PlusInf = MinusInf"
| "float_neg MinusInf = PlusInf"
| "float_neg NaN = NaN"

fun float_add :: "pyfloat \<Rightarrow> pyfloat \<Rightarrow> pyfloat" where
  "float_add (Finite u) (Finite v) = round_double (u + v)"
| "float_add NaN y = NaN"
| "float_add x NaN = NaN"
| "float_add PlusInf MinusInf = NaN"
| "float_add MinusInf PlusInf = NaN"
| "float_add (Finite u) y = y"
| "float_add x y = x"

definition float_sub :: "pyfloat \<Rightarrow> pyfloat \<Rightarrow> pyfloat" where
  "float_sub x y = float_add x (float_neg y)"

fun float_mul :: "pyfloat \<Rightarrow> pyfloat \<Rightarrow> pyfloat" where
  "float_mul (Finite u) (Finite v) = round_double (u * v)"
| "float_mul NaN y = NaN"
| "float_mul x NaN = NaN"
| "float_mul x y =
     (if x = Finite 0 \<or> y = Finite 0 then NaN
      else if negative x = negative y then PlusInf else MinusInf)"

fun float_truediv :: "pyfloat \<Rightarrow> pyfloat \<Rightarrow> pyfloat" where
  "float_truediv (Finite u) (Finite v) = round_double (u / v)"
| "float_truediv NaN y = NaN"
| "float_truediv x NaN = NaN"
| "float_truediv (Finite u) y = Finite 0"
| "float_truediv x (Finite v) = (if negative x = (v < 0) then PlusInf else MinusInf)"
| "float_truediv x y = NaN"

subsection \<open>Python's operators\<close>

text \<open>
  Two \<^verbatim>\<open>int\<close>s give an \<^verbatim>\<open>int\<close>; otherwise two exact numbers give a \<^verbatim>\<open>Fraction\<close>; as soon as
  one operand is a float the other is converted to a float first.
\<close>

definition arith ::
  "(int \<Rightarrow> int \<Rightarrow> int) \<Rightarrow> (rat \<Rightarrow> rat \<Rightarrow> rat) \<Rightarrow> (pyfloat \<Rightarrow> pyfloat \<Rightarrow> pyfloat) \<Rightarrow>
     pynum \<Rightarrow> pynum \<Rightarrow> error + pynum" where
  "arith on_int on_frac on_float a b =
     (case (a, b) of
        (PyInt i, PyInt j) \<Rightarrow> Inr (PyInt (on_int i j))
      | _ \<Rightarrow>
        (case (exact a, exact b) of
           (Some p, Some q) \<Rightarrow> Inr (PyFrac (on_frac p q))
         | _ \<Rightarrow> and_then (to_float a) (\<lambda>x. and_then (to_float b) (\<lambda>y.
                  Inr (PyFloat (on_float x y))))))"

definition py_add :: "pynum \<Rightarrow> pynum \<Rightarrow> error + pynum" where
  "py_add = arith (+) (+) float_add"

definition py_sub :: "pynum \<Rightarrow> pynum \<Rightarrow> error + pynum" where
  "py_sub = arith (-) (-) float_sub"

definition py_mul :: "pynum \<Rightarrow> pynum \<Rightarrow> error + pynum" where
  "py_mul = arith (*) (*) float_mul"

text \<open>
  \<^verbatim>\<open>a / b\<close> is true division: on two \<^verbatim>\<open>int\<close>s the quotient rounded to a float, on exact
  numbers with a \<^verbatim>\<open>Fraction\<close> among them the quotient itself. A zero divisor raises
  \<^verbatim>\<open>ZeroDivisionError\<close>.
\<close>

definition py_truediv :: "pynum \<Rightarrow> pynum \<Rightarrow> error + pynum" where
  "py_truediv a b =
     (case (exact a, exact b) of
        (Some p, Some q) \<Rightarrow>
          if q = 0 then Inl ZeroDivisionError
          else (case (a, b) of
                  (PyInt i, PyInt j) \<Rightarrow>
                    and_then (checked_double (p / q)) (\<lambda>v. Inr (PyFloat (Finite v)))
                | _ \<Rightarrow> Inr (PyFrac (p / q)))
      | _ \<Rightarrow> and_then (to_float a) (\<lambda>x. and_then (to_float b) (\<lambda>y.
               if y = Finite 0 then Inl ZeroDivisionError
               else Inr (PyFloat (float_truediv x y)))))"

text \<open>\<^verbatim>\<open>==\<close> compares the numbers two values denote, whatever their types; a NaN equals nothing.\<close>

fun py_eq :: "pynum \<Rightarrow> pynum \<Rightarrow> bool" where
  "py_eq (PyFloat x) (PyFloat y) = (x \<noteq> NaN \<and> x = y)"
| "py_eq (PyFloat x) b = (case exact b of Some q \<Rightarrow> x = Finite q | None \<Rightarrow> False)"
| "py_eq a (PyFloat y) = (case exact a of Some p \<Rightarrow> y = Finite p | None \<Rightarrow> False)"
| "py_eq a b = (exact a = exact b)"

text \<open>
  \<^verbatim>\<open>**\<close> and \<^verbatim>\<open>%\<close> are given on two \<^verbatim>\<open>int\<close>s, the operands of the harness; on floats they
  are the C library's \<^verbatim>\<open>pow\<close> and \<^verbatim>\<open>fmod\<close>. An \<^verbatim>\<open>int\<close> to a negative \<^verbatim>\<open>int\<close> power_op converts
  both to floats and delivers a float, a zero base raising \<^verbatim>\<open>ZeroDivisionError\<close>; the float
  is taken to be the exact power, rounded. \<^verbatim>\<open>%\<close> on \<^verbatim>\<open>int\<close>s is the remainder of floor
  division, which is \<open>mod\<close> on \<open>int\<close>.
\<close>

definition py_pow :: "int \<Rightarrow> int \<Rightarrow> error + pynum" where
  "py_pow a b =
     (if 0 \<le> b then Inr (PyInt (a ^ nat b))
      else and_then (checked_double (of_int a)) (\<lambda>x. and_then (checked_double (of_int b)) (\<lambda>y.
             if x = 0 then Inl ZeroDivisionError
             else Inr (PyFloat (round_double (x powi \<lfloor>y\<rfloor>))))))"

definition py_mod :: "int \<Rightarrow> int \<Rightarrow> error + pynum" where
  "py_mod a b = (if b = 0 then Inl ZeroDivisionError else Inr (PyInt (a mod b)))"

subsection \<open>The six operations\<close>

text \<open>
  The functions of \<^verbatim>\<open>demo_calculator.py\<close>, line for line:
  \<^verbatim>\<open>
  def add(a, b):      return a + b
  def subtract(a, b): return a - b
  def multiply(a, b): return a * b
  def divide(a, b):
      if b == 0:
          raise ValueError("Cannot divide by zero!")
      return a / b
  def power(a, b):    return a ** b
  def modulo(a, b):
      if b == 0:
          raise ValueError("Cannot modulo by zero!")
      return a % b
  \<close>
  The two zero checks raise \<^verbatim>\<open>ValueError\<close>, which is the error kind the specification
  calls DivisionByZero; \<^verbatim>\<open>ZeroDivisionError\<close> and \<^verbatim>\<open>OverflowError\<close> are raised by the
  operators themselves. The names \<open>divide\<close>, \<open>power\<close> and \<open>modulo\<close> belong to the
  library, hence the suffix.
\<close>

definition add :: "pynum \<Rightarrow> pynum \<Rightarrow> error + pynum" where
  "add a b = py_add a b"

definition subtract :: "pynum \<Rightarrow> pynum \<Rightarrow> error + pynum" where
  "subtract a b = py_sub a b"

definition multiply :: "pynum \<Rightarrow> pynum \<Rightarrow> error + pynum" where
  "multiply a b = py_mul a b"

definition divide_op :: "pynum \<Rightarrow> pynum \<Rightarrow> error + pynum" where
  "divide_op a b = (if py_eq b (PyInt 0) then Inl ValueError else py_truediv a b)"

definition power_op :: "int \<Rightarrow> int \<Rightarrow> error + pynum" where
  "power_op a b = py_pow a b"

definition modulo_op :: "int \<Rightarrow> int \<Rightarrow> error + pynum" where
  "modulo_op a b = (if b = 0 then Inl ValueError else py_mod a b)"

subsection \<open>Calls and the names a body reads\<close>
















subsection \<open>The harness's eighth test\<close>

text \<open>
  \<^verbatim>\<open>result = (add(multiply(3, 4), power(2, 3)) - divide(16, 4))\<close>, evaluated left to
  right, and the comparison \<^verbatim>\<open>result == 16\<close> of the assertion after it.
\<close>

definition complex_calculation :: "error + pynum" where
  "complex_calculation =
     and_then (multiply (PyInt 3) (PyInt 4)) (\<lambda>m.
     and_then (power_op 2 3) (\<lambda>p.
     and_then (add m p) (\<lambda>s.
     and_then (divide_op (PyInt 16) (PyInt 4)) (\<lambda>d.
     py_sub s d))))"

section \<open>Facts\<close>

subsection \<open>Facts about the Fibonacci calculator\<close>

lemma fibonacci_base_zero: "n \<le> 0 \<Longrightarrow> fibonacci n = Some 0"
  by (subst fibonacci.simps) simp

lemma fibonacci_one: "fibonacci 1 = Some 1"
  by (subst fibonacci.simps) simp

lemma fibonacci_step:
  assumes "2 \<le> n" "fibonacci (n - 1) = Some x" "fibonacci (n - 2) = Some y"
  shows "fibonacci n = Some (x + y)"
  using assms by (subst fibonacci.simps) simp

lemma fibonacci_of_nat: "fibonacci (int k) = Some (canonical_F k)"
proof (induction k rule: canonical_F.induct)
  case 1
  show ?case by (simp add: fibonacci_base_zero)
next
  case 2
  show ?case by (simp add: fibonacci_one)
next
  case (3 k)
  have "fibonacci (int (Suc (Suc k))) = Some (canonical_F (Suc k) + canonical_F k)"
  proof (rule fibonacci_step)
    show "2 \<le> int (Suc (Suc k))" by simp
    show "fibonacci (int (Suc (Suc k)) - 1) = Some (canonical_F (Suc k))"
      using "3.IH"(1) by (simp add: algebra_simps)
    show "fibonacci (int (Suc (Suc k)) - 2) = Some (canonical_F k)"
      using "3.IH"(2) by (simp add: algebra_simps)
  qed
  then show ?case by simp
qed

lemma fibonacci_nonnegative: "0 \<le> n \<Longrightarrow> fibonacci n = Some (canonical_F (nat n))"
  using fibonacci_of_nat [of "nat n"] by simp

lemma canonical_sequence_nth:
  assumes "k < 10"
  shows "canonical_sequence ! k = canonical_F k"
proof -
  from assms have "k = 0 \<or> k = 1 \<or> k = 2 \<or> k = 3 \<or> k = 4
      \<or> k = 5 \<or> k = 6 \<or> k = 7 \<or> k = 8 \<or> k = 9"
    by arith
  then show ?thesis
    by (elim disjE) (simp_all add: canonical_sequence_def numeral_eq_Suc)
qed

text \<open>
  C1. For every integer \<open>n\<close> from 0 to 9, \<open>fibonacci n\<close> returns the element at index \<open>n\<close>
  of the listed sequence 0, 1, 1, 2, 3, 5, 8, 13, 21, 34, and that element is the value of
  the recurrence \<open>F\<close> at \<open>n\<close>.
\<close>

theorem fibonacci_first_ten:
  "0 \<le> n \<Longrightarrow> n \<le> 9 \<Longrightarrow>
     fibonacci n = Some (canonical_sequence ! nat n) \<and>
     canonical_sequence ! nat n = canonical_F (nat n)"
  by (simp add: fibonacci_nonnegative canonical_sequence_nth)

theorem fibonacci_first_ten_witness:
  "(0::int) \<le> 7 \<and> (7::int) \<le> 9 \<and> fibonacci 7 = Some 13 \<and>
     canonical_sequence ! nat 7 = 13"
  using fibonacci_first_ten [of 7] by (simp add: canonical_sequence_def numeral_eq_Suc)

text \<open>
  C5. For every integer \<open>n \<le> 0\<close>, the negative ones included, \<open>fibonacci n\<close> returns 0.
\<close>

theorem fibonacci_nonpositive_zero: "n \<le> 0 \<Longrightarrow> fibonacci n = Some 0"
  by (rule fibonacci_base_zero)

theorem fibonacci_nonpositive_zero_witness:
  "(-3::int) \<le> 0 \<and> fibonacci (-3) = Some 0"
  using fibonacci_nonpositive_zero [of "-3"] by simp

lemma fibonacci_returns: "\<exists>v. fibonacci n = Some v"
proof (cases "n \<le> 0")
  case True
  then show ?thesis by (simp add: fibonacci_base_zero)
next
  case False
  then show ?thesis by (simp add: fibonacci_nonnegative)
qed

lemma and_then_Inr: "and_then (Inr v) f = f v"
  by (simp add: and_then_def)

lemma and_then_Inl: "and_then (Inl e) f = Inl e"
  by (simp add: and_then_def)

lemma canonical_F_step:
  assumes "2 \<le> n"
  shows "canonical_F (nat n) = canonical_F (nat (n - 1)) + canonical_F (nat (n - 2))"
proof -
  from assms have "nat n = Suc (Suc (nat (n - 2)))" and "nat (n - 1) = Suc (nat (n - 2))"
    by linarith+
  then show ?thesis by simp
qed

lemma fibonacci_within_enough:
  "max 1 n \<le> int frames \<Longrightarrow> fibonacci_within frames n = Inr (canonical_F (nat n))"
proof (induction frames arbitrary: n)
  case 0
  then show ?case by simp
next
  case (Suc frames)
  show ?case
  proof (cases "n \<le> 1")
    case True
    then have "n \<le> 0 \<or> n = 1" by linarith
    then show ?thesis by auto
  next
    case False
    then have n: "2 \<le> n" by simp
    with Suc.prems have "max 1 (n - 1) \<le> int frames" and "max 1 (n - 2) \<le> int frames"
      by simp_all
    then have "fibonacci_within frames (n - 1) = Inr (canonical_F (nat (n - 1)))"
      and "fibonacci_within frames (n - 2) = Inr (canonical_F (nat (n - 2)))"
      by (simp_all only: Suc.IH)
    with n show ?thesis
      by (simp add: and_then_Inr canonical_F_step [OF n])
  qed
qed

lemma fibonacci_within_too_deep:
  "int frames < max 1 n \<Longrightarrow> fibonacci_within frames n = Inl RecursionError"
proof (induction frames arbitrary: n)
  case 0
  show ?case by simp
next
  case (Suc frames)
  then have n: "2 \<le> n" and "int frames < max 1 (n - 1)" by simp_all
  then have "fibonacci_within frames (n - 1) = Inl RecursionError"
    by (simp only: Suc.IH)
  with n show ?case by (simp add: and_then_Inl)
qed

text \<open>
  The two definitions agree wherever the bounded one returns a value.
\<close>

lemma fibonacci_within_agrees:
  assumes "fibonacci_within frames n = Inr v"
  shows "fibonacci n = Some v"
proof (cases "max 1 n \<le> int frames")
  case True
  with assms have v: "v = canonical_F (nat n)" by (simp add: fibonacci_within_enough)
  show ?thesis
  proof (cases "n \<le> 0")
    case True
    then show ?thesis by (simp add: v fibonacci_base_zero)
  next
    case False
    then show ?thesis by (simp add: v fibonacci_nonnegative)
  qed
next
  case False
  with assms show ?thesis by (simp add: fibonacci_within_too_deep)
qed

text \<open>
  The values of the first ten arguments and of the non-positive ones are the same under a
  recursion limit, as soon as it leaves room for nine nested calls, or for one.
\<close>

lemma fibonacci_within_first_ten:
  assumes "0 \<le> n" "n \<le> 9" "9 \<le> frames"
  shows "fibonacci_within frames n = Inr (canonical_sequence ! nat n)"
proof -
  from assms have "max 1 n \<le> int frames" by simp
  then have "fibonacci_within frames n = Inr (canonical_F (nat n))"
    by (rule fibonacci_within_enough)
  moreover from assms have "nat n < 10" by simp
  ultimately show ?thesis by (simp add: canonical_sequence_nth)
qed

lemma fibonacci_within_nonpositive:
  assumes "n \<le> 0" "1 \<le> frames"
  shows "fibonacci_within frames n = Inr 0"
proof -
  from assms have "max 1 n \<le> int frames" by simp
  then have "fibonacci_within frames n = Inr (canonical_F (nat n))"
    by (rule fibonacci_within_enough)
  with assms(1) show ?thesis by simp
qed

text \<open>
  C6, as the code has it. For every integer \<open>n\<close>, \<open>fibonacci(n)\<close> returns its value, \<open>F(n)\<close>
  for \<open>n \<ge> 0\<close> and 0 for \<open>n \<le> 0\<close>, and raises nothing, provided the interpreter allows
  \<open>max 1 n\<close> more nested calls; with fewer it raises \<^verbatim>\<open>RecursionError\<close>. The recursion is
  well founded: for every integer some number of nested calls is enough.
\<close>

theorem fibonacci_within_limit:
  "(max 1 n \<le> int frames \<longrightarrow> fibonacci_within frames n = Inr (canonical_F (nat n))) \<and>
   (int frames < max 1 n \<longrightarrow> fibonacci_within frames n = Inl RecursionError) \<and>
   (\<exists>enough v. fibonacci_within enough n = Inr v)"
proof (intro conjI impI)
  assume "max 1 n \<le> int frames"
  then show "fibonacci_within frames n = Inr (canonical_F (nat n))"
    by (rule fibonacci_within_enough)
next
  assume "int frames < max 1 n"
  then show "fibonacci_within frames n = Inl RecursionError"
    by (rule fibonacci_within_too_deep)
next
  have "max 1 n \<le> int (nat (max 1 n))" by simp
  then have "fibonacci_within (nat (max 1 n)) n = Inr (canonical_F (nat n))"
    by (rule fibonacci_within_enough)
  then show "\<exists>enough v. fibonacci_within enough n = Inr v" by blast
qed

theorem fibonacci_within_limit_witness:
  "max 1 (9::int) \<le> int 10 \<and> fibonacci_within 10 9 = Inr 34 \<and>
   int 3 < max 1 (5::int) \<and> fibonacci_within 3 5 = Inl RecursionError"
proof -
  have "canonical_F (nat 9) = 34" by (simp add: numeral_eq_Suc)
  with fibonacci_within_limit [of 9 10] fibonacci_within_limit [of 5 3]
  show ?thesis by simp
qed

text \<open>
  C6, as the claim has it, fails. \<open>fibonacci(1000)\<close> nests 1000 calls; under the default
  limit of 1000 frames, one of which is the caller's, 999 are left and the call raises
  \<^verbatim>\<open>RecursionError\<close>.
\<close>

theorem fibonacci_exceeds_default_limit: "fibonacci_within 999 1000 = Inl RecursionError"
  by (rule fibonacci_within_too_deep) simp


subsection \<open>Facts about rounding\<close>

lemma two_powi_pos: "0 < (2::rat) powi k"
  by (simp add: zero_less_power_int)

lemma two_powi_less: "(2::rat) powi a < 2 powi b \<longleftrightarrow> a < b"
proof
  assume "(2::rat) powi a < 2 powi b"
  show "a < b"
  proof (rule ccontr)
    assume "\<not> a < b"
    then have "b \<le> a" by simp
    then have "(2::rat) powi b \<le> 2 powi a" by (intro power_int_increasing) simp_all
    with \<open>(2::rat) powi a < 2 powi b\<close> show False by simp
  qed
next
  assume "a < b"
  then show "(2::rat) powi a < 2 powi b" by (intro power_int_strict_increasing) simp_all
qed

lemma two_powi_le: "(2::rat) powi a \<le> 2 powi b \<longleftrightarrow> a \<le> b"
  using two_powi_less [of b a] by (simp add: not_less [symmetric])

lemma bitlen_rat_bounds:
  assumes "0 < n"
  shows "(2::rat) powi (bitlen n - 1) \<le> of_int n" and "of_int n < (2::rat) powi bitlen n"
proof -
  from bitlen_bounds [OF assms]
  have lo: "2 ^ nat (bitlen n - 1) \<le> n" and hi: "n < 2 ^ nat (bitlen n)" by simp_all
  have pos: "1 \<le> bitlen n"
  proof (rule ccontr)
    assume "\<not> 1 \<le> bitlen n"
    then have "nat (bitlen n) = 0" by simp
    with hi assms show False by simp
  qed
  have "(2::rat) powi (bitlen n - 1) = of_int (2 ^ nat (bitlen n - 1))"
    using pos by (simp add: power_int_nonneg_exp)
  also have "\<dots> \<le> of_int n" using lo by (simp only: of_int_le_iff)
  finally show "(2::rat) powi (bitlen n - 1) \<le> of_int n" .
  have "(of_int n :: rat) < of_int (2 ^ nat (bitlen n))"
    using hi by (simp only: of_int_less_iff)
  also have "\<dots> = 2 powi bitlen n"
    using pos by (simp add: power_int_nonneg_exp)
  finally show "of_int n < (2::rat) powi bitlen n" .
qed

lemma ilog2_bounds:
  assumes "q \<noteq> 0"
  shows "2 powi ilog2 q \<le> \<bar>q\<bar>" and "\<bar>q\<bar> < 2 powi (ilog2 q + 1)"
proof -
  obtain n d where nd: "quotient_of \<bar>q\<bar> = (n, d)" by (cases "quotient_of \<bar>q\<bar>")
  have d: "0 < d" using nd by (rule quotient_of_denom_pos)
  have q: "\<bar>q\<bar> = of_int n / of_int d" using nd by (rule quotient_of_div)
  have "0 < \<bar>q\<bar>" using assms by simp
  with q d have n: "0 < n" by (simp add: zero_less_divide_iff)
  define k where "k = bitlen n - bitlen d"
  note bn = bitlen_rat_bounds [OF n] and bd = bitlen_rat_bounds [OF d]
  have dpos: "0 < (of_int d :: rat)" using d by simp
  have "\<bar>q\<bar> * of_int d = of_int n" using q dpos by simp
  have up: "\<bar>q\<bar> < 2 powi (k + 1)"
  proof -
    have "of_int n < (2::rat) powi bitlen n" by (rule bn(2))
    also have "\<dots> = 2 powi (k + 1) * 2 powi (bitlen d - 1)"
      by (simp add: k_def flip: power_int_add)
    also have "\<dots> \<le> 2 powi (k + 1) * of_int d"
      using bd(1) two_powi_pos [of "k + 1"] by (simp add: mult_left_mono)
    finally show ?thesis using dpos by (simp add: q pos_divide_less_eq)
  qed
  have low: "2 powi (k - 1) < \<bar>q\<bar>"
  proof -
    have "(2::rat) powi (k - 1) * of_int d < 2 powi (k - 1) * 2 powi bitlen d"
      using bd(2) two_powi_pos [of "k - 1"] by (simp add: mult_strict_left_mono)
    also have "\<dots> = 2 powi (bitlen n - 1)"
      by (simp add: k_def flip: power_int_add)
    also have "\<dots> \<le> of_int n" by (rule bn(1))
    finally show ?thesis using dpos by (simp add: q pos_less_divide_eq)
  qed
  have il: "ilog2 q = (if 2 powi k \<le> \<bar>q\<bar> then k else k - 1)"
    by (simp add: ilog2_def nd k_def Let_def)
  show "2 powi ilog2 q \<le> \<bar>q\<bar>" using low by (simp add: il)
  show "\<bar>q\<bar> < 2 powi (ilog2 q + 1)" using up by (simp add: il not_le)
qed

lemma ilog2_unique:
  assumes "2 powi k \<le> \<bar>q\<bar>" "\<bar>q\<bar> < 2 powi (k + 1)"
  shows "ilog2 q = k"
proof -
  have "0 < \<bar>q\<bar>" using assms(1) two_powi_pos [of k] by linarith
  then have "q \<noteq> 0" by simp
  note b = ilog2_bounds [OF this]
  have "(2::rat) powi k < 2 powi (ilog2 q + 1)" using assms(1) b(2) by simp
  then have "k < ilog2 q + 1" by (simp only: two_powi_less)
  moreover have "(2::rat) powi ilog2 q < 2 powi (k + 1)" using assms(2) b(1) by simp
  then have "ilog2 q < k + 1" by (simp only: two_powi_less)
  ultimately show ?thesis by simp
qed

lemma round_half_even_of_int: "round_half_even (of_int m) = m"
  by (simp add: round_half_even_def)

lemma round_half_even_error: "\<bar>of_int (round_half_even x) - x\<bar> \<le> 1 / 2"
proof -
  have "of_int \<lfloor>x\<rfloor> \<le> x" "x < of_int \<lfloor>x\<rfloor> + 1" by linarith+
  then show ?thesis
    by (auto simp: round_half_even_def Let_def abs_le_iff)
qed

lemma quantum_le:
  assumes "q \<noteq> 0" "\<bar>q\<bar> < 2 powi (e + 53)" "- 1074 \<le> e"
  shows "quantum q \<le> e"
proof -
  have "(2::rat) powi ilog2 q < 2 powi (e + 53)"
    using ilog2_bounds(1) [OF assms(1)] assms(2) by simp
  then have "ilog2 q < e + 53" by (simp only: two_powi_less)
  with assms(3) show ?thesis by (simp add: quantum_def)
qed

lemma round_double_exact:
  assumes q: "q = of_int m * 2 powi e"
    and m: "\<bar>m\<bar> < 2 ^ 53" and e: "- 1074 \<le> e" "e \<le> 971"
  shows "round_double q = Finite q"
proof (cases "q = 0")
  case True
  then show ?thesis by (simp add: round_double_def)
next
  case False
  define E where "E = quantum q"
  define M where "M = round_half_even (q / 2 powi E)"
  have "\<bar>q\<bar> = of_int \<bar>m\<bar> * 2 powi e"
    using two_powi_pos [of e] by (simp add: q abs_mult)
  also have "\<dots> < of_int (2 ^ 53) * 2 powi e"
    using m two_powi_pos [of e] by (simp only: mult_less_cancel_right_pos of_int_less_iff)
  also have "\<dots> = 2 powi (e + 53)"
    by (simp add: power_int_add)
  finally have small: "\<bar>q\<bar> < 2 powi (e + 53)" .
  have Ee: "E \<le> e" unfolding E_def using False small e(1) by (rule quantum_le)
  have "q / 2 powi E = of_int m * 2 powi (e - E)"
    by (simp add: q power_int_diff)
  also have "\<dots> = of_int (m * 2 ^ nat (e - E))"
    using Ee by (simp add: power_int_nonneg_exp)
  finally have qE: "q / 2 powi E = of_int (m * 2 ^ nat (e - E))" .
  have Mm: "M = m * 2 ^ nat (e - E)"
    unfolding M_def qE by (rule round_half_even_of_int)
  have vq: "of_int M * 2 powi E = q"
    using qE two_powi_pos [of E] by (simp add: Mm nonzero_divide_eq_eq)
  have "(2::rat) powi ilog2 q < 2 powi (e + 53)"
    using ilog2_bounds(1) [OF False] small by simp
  then have L: "ilog2 q < e + 53" by (simp only: two_powi_less)
  have E1: "E \<le> 971" using L e(2) by (simp add: E_def quantum_def)
  have E2: "\<bar>M\<bar> < 2 ^ 53"
  proof (rule ccontr)
    assume "\<not> \<bar>M\<bar> < 2 ^ 53"
    then have "(of_int (2 ^ 53) :: rat) \<le> of_int \<bar>M\<bar>" by (simp only: of_int_le_iff not_less)
    then have "(2::rat) powi (E + 53) \<le> of_int \<bar>M\<bar> * 2 powi E"
      using two_powi_pos [of E] by (simp add: power_int_add mult.commute)
    also have "\<dots> = \<bar>q\<bar>"
      using two_powi_pos [of E] by (simp add: vq [symmetric] abs_mult)
    also have "\<dots> < 2 powi (ilog2 q + 1)" by (rule ilog2_bounds(2) [OF False])
    finally have "E + 53 < ilog2 q + 1" by (simp only: two_powi_less)
    then show False by (simp add: E_def quantum_def)
  qed
  show ?thesis
    using False E1 E2 vq
    by (simp add: round_double_def Let_def E_def [symmetric] M_def [symmetric])
qed

lemma round_double_error:
  assumes "round_double q = Finite v"
  shows "\<bar>v - q\<bar> \<le> 2 powi quantum q / 2"
proof (cases "q = 0")
  case True
  with assms show ?thesis using two_powi_pos [of "quantum 0"] by (simp add: round_double_def)
next
  case False
  define E where "E = quantum q"
  define M where "M = round_half_even (q / 2 powi E)"
  have v: "v = of_int M * 2 powi E"
    using assms False
    by (simp add: round_double_def Let_def E_def [symmetric] M_def [symmetric] split: if_splits)
  have "v - q = (of_int M - q / 2 powi E) * 2 powi E"
    using two_powi_pos [of E] by (simp add: v algebra_simps)
  then have "\<bar>v - q\<bar> = \<bar>of_int M - q / 2 powi E\<bar> * 2 powi E"
    using two_powi_pos [of E] by (simp add: abs_mult)
  also have "\<dots> \<le> 1 / 2 * 2 powi E"
    using round_half_even_error [of "q / 2 powi E"] two_powi_pos [of E]
    by (simp only: M_def mult_le_cancel_right_pos)
  finally show ?thesis by (simp add: E_def)
qed

lemma round_double_overflow:
  assumes "1024 \<le> k"
  shows "round_double (2 powi k) = PlusInf"
proof -
  have pos: "0 < (2::rat) powi k" by (rule two_powi_pos)
  have "ilog2 (2 powi k) = k"
    using pos by (intro ilog2_unique) (simp_all add: two_powi_less)
  then have E: "quantum (2 powi k) = k - 52" using assms by (simp add: quantum_def)
  have "(2::rat) powi k / 2 powi (k - 52) = of_int (2 ^ 52)"
    by (simp add: power_int_diff)
  then have M: "round_half_even (2 powi k / 2 powi (k - 52)) = 2 ^ 52"
    by (simp only: round_half_even_of_int)
  show ?thesis
    using pos assms by (simp add: round_double_def E M)
qed

subsection \<open>Facts about the calculator\<close>

lemma arith_int: "arith on_int on_frac on_float (PyInt i) (PyInt j) = Inr (PyInt (on_int i j))"
  by (simp add: arith_def)

lemma arith_frac:
  "arith on_int on_frac on_float (PyFrac p) (PyFrac q) = Inr (PyFrac (on_frac p q))"
  by (simp add: arith_def)

lemma modulo_int: "modulo_op a b = (if b = 0 then Inl ValueError else Inr (PyInt (a mod b)))"
  by (simp add: modulo_op_def py_mod_def)

lemma floor_quotient: "\<lfloor>rat_of_int a / rat_of_int b\<rfloor> = a div b"
  by (simp add: floor_divide_of_int_eq)

text \<open>
  C8. The six point evaluations: \<open>add(5, 3)\<close> is 8, \<open>subtract(10, 4)\<close> is 6,
  \<open>multiply(6, 7)\<close> is 42, \<open>divide(20, 5)\<close> is the float 4.0, which \<^verbatim>\<open>==\<close> finds equal to 4,
  \<open>power(2, 10)\<close> is 1024 and \<open>modulo(17, 5)\<close> is 2.
\<close>

theorem point_evaluations:
  "add (PyInt 5) (PyInt 3) = Inr (PyInt 8) \<and>
   subtract (PyInt 10) (PyInt 4) = Inr (PyInt 6) \<and>
   multiply (PyInt 6) (PyInt 7) = Inr (PyInt 42) \<and>
   divide_op (PyInt 20) (PyInt 5) = Inr (PyFloat (Finite 4)) \<and>
   py_eq (PyFloat (Finite 4)) (PyInt 4) \<and>
   power_op 2 10 = Inr (PyInt 1024) \<and>
   modulo_op 17 5 = Inr (PyInt 2)"
proof -
  have "add (PyInt 5) (PyInt 3) = Inr (PyInt 8)"
    by (simp add: add_def py_add_def arith_int)
  moreover have "subtract (PyInt 10) (PyInt 4) = Inr (PyInt 6)"
    by (simp add: subtract_def py_sub_def arith_int)
  moreover have "multiply (PyInt 6) (PyInt 7) = Inr (PyInt 42)"
    by (simp add: multiply_def py_mul_def arith_int)
  moreover have "divide_op (PyInt 20) (PyInt 5) = Inr (PyFloat (Finite 4))"
    by code_simp
  moreover have "py_eq (PyFloat (Finite 4)) (PyInt 4)"
    by simp
  moreover have "power_op 2 10 = Inr (PyInt 1024)"
    by (simp add: power_op_def py_pow_def)
  moreover have "modulo_op 17 5 = Inr (PyInt 2)"
    by (simp add: modulo_int)
  ultimately show ?thesis by blast
qed

text \<open>
  C7. The composite expression \<open>add(multiply(3, 4), power(2, 3)) - divide(16, 4)\<close> raises
  nothing and its value, the float 16.0, is equal to 16.
\<close>

theorem complex_calculation_is_16:
  "complex_calculation = Inr (PyFloat (Finite 16)) \<and> py_eq (PyFloat (Finite 16)) (PyInt 16)"
proof -
  have "complex_calculation = Inr (PyFloat (Finite 16))"
    by code_simp
  then show ?thesis by simp
qed

text \<open>
  C3. On integers, \<open>modulo(a, b)\<close> raises the error of the zero check, \<^verbatim>\<open>ValueError\<close>, if and
  only if \<open>b = 0\<close>, and raises no other error; for \<open>b \<noteq> 0\<close> it returns the remainder \<open>r\<close> of
  floor division, \<open>a = b * \<lfloor>a / b\<rfloor> + r\<close>, which is zero or has the sign of \<open>b\<close>.
\<close>

theorem modulo_floor_mod:
  "(modulo_op a b = Inl ValueError \<longleftrightarrow> b = 0) \<and>
   (\<forall>e. modulo_op a b = Inl e \<longrightarrow> e = ValueError) \<and>
   (b \<noteq> 0 \<longrightarrow>
      (\<exists>r. modulo_op a b = Inr (PyInt r) \<and>
           a = b * \<lfloor>rat_of_int a / rat_of_int b\<rfloor> + r \<and>
           (0 < b \<longrightarrow> 0 \<le> r \<and> r < b) \<and>
           (b < 0 \<longrightarrow> b < r \<and> r \<le> 0)))"
  by (simp add: modulo_int floor_quotient)

theorem modulo_floor_mod_witness:
  "modulo_op 5 0 = Inl ValueError \<and> (3::int) \<noteq> 0 \<and> modulo_op (- 7) 3 = Inr (PyInt 2) \<and>
   (- 3::int) \<noteq> 0 \<and> modulo_op 7 (- 3) = Inr (PyInt (- 2))"
  using modulo_floor_mod [of 5 0] modulo_floor_mod [of "- 7" 3] modulo_floor_mod [of 7 "- 3"]
  by (simp add: modulo_int)

text \<open>
  C4, as the code has it. \<open>power(a, b)\<close> returns the integer \<open>a ^ b\<close> and raises nothing for
  every integer \<open>a\<close> and every integer \<open>b \<ge> 0\<close>.
\<close>

theorem power_nonnegative_exponent: "0 \<le> b \<Longrightarrow> power_op a b = Inr (PyInt (a ^ nat b))"
  by (simp add: power_op_def py_pow_def)

theorem power_nonnegative_exponent_witness:
  "(0::int) \<le> 3 \<and> power_op (- 2) 3 = Inr (PyInt (- 8))"
  using power_nonnegative_exponent [of 3 "- 2"] by simp

text \<open>
  C4, as the claim has it, fails: \<open>power(0, -1)\<close> raises \<^verbatim>\<open>ZeroDivisionError\<close>.
\<close>

theorem power_zero_negative_raises: "power_op 0 (- 1) = Inl ZeroDivisionError"
  by code_simp










lemma divide_int:
  "divide_op (PyInt a) (PyInt b) =
     (if b = 0 then Inl ValueError
      else case round_double (rat_of_int a / rat_of_int b) of
             Finite v \<Rightarrow> Inr (PyFloat (Finite v))
           | _ \<Rightarrow> Inl OverflowError)"
  by (simp add: divide_op_def py_truediv_def checked_double_def and_then_def
      split: pyfloat.splits)

lemma divide_frac:
  "divide_op (PyFrac a) (PyFrac b) = (if b = 0 then Inl ValueError else Inr (PyFrac (a / b)))"
  by (simp add: divide_op_def py_truediv_def)

lemma multiply_frac: "multiply (PyFrac a) (PyFrac b) = Inr (PyFrac (a * b))"
  by (simp add: multiply_def py_mul_def arith_frac)

text \<open>
  On \<^verbatim>\<open>int\<close> operands the quotient is rounded, so dividing and multiplying back need not
  return to the start: \<^verbatim>\<open>1 / 49 * 49\<close> is the float just below 1.
\<close>

lemma round_trip_on_ints_rounds:
  "and_then (divide_op (PyInt 1) (PyInt 49)) (\<lambda>q. multiply q (PyInt 49)) =
     Inr (PyFloat (Finite (9007199254740991 / 9007199254740992)))"
  by code_simp

text \<open>
  C2, as the code has it. On integers, \<open>divide(a, b)\<close> raises \<^verbatim>\<open>ValueError\<close>, the error of
  the zero check, if and only if \<open>b = 0\<close>, and the only other error it raises is
  \<^verbatim>\<open>OverflowError\<close>. For \<open>b \<noteq> 0\<close> it returns the float nearest to the quotient \<open>a / b\<close>, or
  raises \<^verbatim>\<open>OverflowError\<close> where that float would be an infinity. A returned float is
  within half a unit of the last place of \<open>a / b\<close>, and it is \<open>a / b\<close> itself whenever
  \<open>a / b\<close> is a float, that is \<open>m * 2 ^ e\<close> with \<open>\<bar>m\<bar> < 2 ^ 53\<close> and \<open>- 1074 \<le> e \<le> 971\<close>.
\<close>

theorem divide_on_ints:
  "(divide_op (PyInt a) (PyInt b) = Inl ValueError \<longleftrightarrow> b = 0) \<and>
   (\<forall>err. divide_op (PyInt a) (PyInt b) = Inl err \<longrightarrow> err = ValueError \<or> err = OverflowError) \<and>
   (b \<noteq> 0 \<longrightarrow>
      divide_op (PyInt a) (PyInt b) =
        (case round_double (rat_of_int a / rat_of_int b) of
           Finite v \<Rightarrow> Inr (PyFloat (Finite v))
         | _ \<Rightarrow> Inl OverflowError)) \<and>
   (\<forall>r. divide_op (PyInt a) (PyInt b) = Inr r \<longrightarrow>
      (\<exists>v. r = PyFloat (Finite v) \<and>
           \<bar>v - rat_of_int a / rat_of_int b\<bar> \<le> 2 powi quantum (rat_of_int a / rat_of_int b) / 2)) \<and>
   (b \<noteq> 0 \<and> rat_of_int a / rat_of_int b = rat_of_int m * 2 powi e \<and>
      \<bar>m\<bar> < 2 ^ 53 \<and> - 1074 \<le> e \<and> e \<le> 971 \<longrightarrow>
      divide_op (PyInt a) (PyInt b) = Inr (PyFloat (Finite (rat_of_int a / rat_of_int b))))"
proof (intro conjI allI impI)
  show "divide_op (PyInt a) (PyInt b) = Inl ValueError \<longleftrightarrow> b = 0"
    by (simp add: divide_int split: pyfloat.splits)
next
  fix err
  assume "divide_op (PyInt a) (PyInt b) = Inl err"
  then show "err = ValueError \<or> err = OverflowError"
    by (auto simp: divide_int split: if_splits pyfloat.splits)
next
  assume "b \<noteq> 0"
  then show "divide_op (PyInt a) (PyInt b) =
      (case round_double (rat_of_int a / rat_of_int b) of
         Finite v \<Rightarrow> Inr (PyFloat (Finite v))
       | _ \<Rightarrow> Inl OverflowError)"
    by (simp add: divide_int)
next
  fix r
  assume "divide_op (PyInt a) (PyInt b) = Inr r"
  then obtain v where v: "round_double (rat_of_int a / rat_of_int b) = Finite v"
    and r: "r = PyFloat (Finite v)"
    by (auto simp: divide_int split: if_splits pyfloat.splits)
  from v have "\<bar>v - rat_of_int a / rat_of_int b\<bar> \<le> 2 powi quantum (rat_of_int a / rat_of_int b) / 2"
    by (rule round_double_error)
  with r show "\<exists>v. r = PyFloat (Finite v) \<and>
      \<bar>v - rat_of_int a / rat_of_int b\<bar> \<le> 2 powi quantum (rat_of_int a / rat_of_int b) / 2"
    by blast
next
  assume h: "b \<noteq> 0 \<and> rat_of_int a / rat_of_int b = rat_of_int m * 2 powi e \<and>
      \<bar>m\<bar> < 2 ^ 53 \<and> - 1074 \<le> e \<and> e \<le> 971"
  then have "round_double (rat_of_int a / rat_of_int b) = Finite (rat_of_int a / rat_of_int b)"
    by (intro round_double_exact [of _ m e]) simp_all
  with h show "divide_op (PyInt a) (PyInt b) = Inr (PyFloat (Finite (rat_of_int a / rat_of_int b)))"
    by (simp add: divide_int)
qed

theorem divide_on_ints_witness:
  "divide_op (PyInt 10) (PyInt 0) = Inl ValueError \<and>
   (5::int) \<noteq> 0 \<and> rat_of_int 20 / rat_of_int 5 = rat_of_int 1 * 2 powi 2 \<and>
   \<bar>1::int\<bar> < 2 ^ 53 \<and> (- 1074::int) \<le> 2 \<and> (2::int) \<le> 971 \<and>
   divide_op (PyInt 20) (PyInt 5) = Inr (PyFloat (Finite 4))"
proof -
  have h: "(5::int) \<noteq> 0 \<and> rat_of_int 20 / rat_of_int 5 = rat_of_int 1 * 2 powi 2 \<and>
      \<bar>1::int\<bar> < 2 ^ 53 \<and> (- 1074::int) \<le> 2 \<and> (2::int) \<le> 971"
    by simp
  with divide_on_ints [of 20 5 1 2]
  have "divide_op (PyInt 20) (PyInt 5) = Inr (PyFloat (Finite (rat_of_int 20 / rat_of_int 5)))"
    by blast
  moreover from divide_on_ints [of 10 0 1 2]
  have "divide_op (PyInt 10) (PyInt 0) = Inl ValueError"
    by blast
  ultimately show ?thesis using h by simp
qed

text \<open>
  C2, as the claim has it, fails twice. \<open>divide(1, 3)\<close> returns a float that is not the
  quotient: \<^verbatim>\<open>==\<close> finds it different from the fraction one third. And
  \<open>divide(2 ^ 1024, 1)\<close> raises \<^verbatim>\<open>OverflowError\<close>, an error other than that of the zero
  check.
\<close>

theorem divide_rounds_and_overflows:
  "divide_op (PyInt 1) (PyInt 3) =
     Inr (PyFloat (Finite (6004799503160661 / 18014398509481984))) \<and>
   \<not> py_eq (PyFloat (Finite (6004799503160661 / 18014398509481984))) (PyFrac (1 / 3)) \<and>
   divide_op (PyInt (2 ^ 1024)) (PyInt 1) = Inl OverflowError"
proof -
  have "divide_op (PyInt 1) (PyInt 3) =
      Inr (PyFloat (Finite (6004799503160661 / 18014398509481984)))"
    by code_simp
  moreover have "\<not> py_eq (PyFloat (Finite (6004799503160661 / 18014398509481984))) (PyFrac (1 / 3))"
    by simp
  moreover have "divide_op (PyInt (2 ^ 1024)) (PyInt 1) = Inl OverflowError"
  proof -
    have "round_double (2 powi 1024) = PlusInf"
      by (rule round_double_overflow) simp
    then have "round_double (rat_of_int (2 ^ 1024) / rat_of_int 1) = PlusInf"
      by simp
    then show ?thesis
      by (simp only: divide_int pyfloat.case) simp
  qed
  ultimately show ?thesis by blast
qed

text \<open>
  C10. In exact rational arithmetic, that is on \<^verbatim>\<open>Fraction\<close> operands, dividing \<open>a\<close> by a
  non-zero \<open>b\<close> and multiplying the quotient by \<open>b\<close> raises nothing and returns \<open>a\<close>.
\<close>

theorem divide_multiply_round_trip:
  "b \<noteq> 0 \<Longrightarrow>
     and_then (divide_op (PyFrac a) (PyFrac b)) (\<lambda>q. multiply q (PyFrac b)) = Inr (PyFrac a)"
  by (simp add: divide_frac multiply_frac and_then_Inr)

theorem divide_multiply_round_trip_witness:
  "(49::rat) \<noteq> 0 \<and>
   and_then (divide_op (PyFrac 1) (PyFrac 49)) (\<lambda>q. multiply q (PyFrac 49)) = Inr (PyFrac 1)"
  using divide_multiply_round_trip [of 49 1] by simp

end
